theory Spec2Isabelle
  imports Main
begin

section \<open>Library functions used by the validator\<close>

text \<open>
  The package \<open>validator\<close> (file \<open>validator/validator.go\<close>) calls a handful of
  functions of Go's standard library.  Each is modelled here at the call sites'
  instantiation.  A Go \<open>string\<close> is a byte sequence, modelled as a \<open>char list\<close>;
  \<open>len\<close> counts bytes, as \<open>length\<close> does.
\<close>

subsection \<open>strings.Split and strings.Trim\<close>

text \<open>
  \<open>strings.Split(s, sep)\<close> for a one-byte separator (the source uses \<open>","\<close> and
  \<open>"="\<close>): all pieces between separators, in order; a string without separator,
  the empty string included, gives a single piece.
\<close>

fun strings_Split :: "string \<Rightarrow> char \<Rightarrow> string list" where
  "strings_Split [] sep = [[]]"
| "strings_Split (c # s) sep =
     (if c = sep then [] # strings_Split s sep
      else (case strings_Split s sep of
              [] \<Rightarrow> [[c]]
            | p # ps \<Rightarrow> (c # p) # ps))"

text \<open>\<open>strings.Trim(s, cutset)\<close>: leading and trailing bytes of the cutset removed.\<close>

definition strings_Trim :: "string \<Rightarrow> string \<Rightarrow> string" where
  "strings_Trim s cutset =
     rev (dropWhile (\<lambda>c. c \<in> set cutset) (rev (dropWhile (\<lambda>c. c \<in> set cutset) s)))"

subsection \<open>strconv.Atoi and the verb %d\<close>

definition isdigit :: "char \<Rightarrow> bool" where
  "isdigit c = (48 \<le> (of_char c :: nat) \<and> (of_char c :: nat) \<le> 57)"

definition digit_val :: "char \<Rightarrow> int" where
  "digit_val c = int (of_char c) - 48"

definition digits_val :: "string \<Rightarrow> int" where
  "digits_val ds = foldl (\<lambda>n c. 10 * n + digit_val c) 0 ds"

text \<open>
  \<open>strconv.Atoi\<close>: an optional sign, then one or more decimal digits and nothing
  else; the value has to fit Go's \<open>int\<close>, taken as 64 bits wide.  \<open>None\<close> stands
  for a non-nil error.
\<close>

definition strconv_Atoi :: "string \<Rightarrow> int option" where
  "strconv_Atoi s =
     (let neg = (case s of c # _ \<Rightarrow> c = CHR ''-'' | [] \<Rightarrow> False);
          ds = (case s of c # t \<Rightarrow> if c = CHR ''-'' \<or> c = CHR ''+'' then t else s | [] \<Rightarrow> s)
      in if ds = [] \<or> \<not> list_all isdigit ds then None
         else (let n = (if neg then - digits_val ds else digits_val ds)
               in if - (2 ^ 63) \<le> n \<and> n < 2 ^ 63 then Some n else None))"

definition digit_char :: "nat \<Rightarrow> char" where
  "digit_char d = ''0123456789'' ! d"

fun fmt_nat :: "nat \<Rightarrow> string" where
  "fmt_nat n = (if n < 10 then [digit_char n] else fmt_nat (n div 10) @ [digit_char (n mod 10)])"

declare fmt_nat.simps [simp del]

text \<open>\<open>%d\<close> applied to an integer: decimal digits, a minus sign when negative.\<close>

definition fmt_d :: "int \<Rightarrow> string" where
  "fmt_d i = (if i < 0 then CHR ''-'' # fmt_nat (nat (- i)) else fmt_nat (nat i))"

text \<open>
  \<open>%d\<close> applied to an operand of type \<open>string\<close>: package \<open>fmt\<close> prints the bad-verb
  form \<open>%!d(string=...)\<close>.
\<close>

definition fmt_d_string :: "string \<Rightarrow> string" where
  "fmt_d_string s = ''%!d(string='' @ s @ '')''"

text \<open>\<open>strings.Join(elems, sep)\<close>.\<close>

fun strings_Join :: "string list \<Rightarrow> string \<Rightarrow> string" where
  "strings_Join [] sep = []"
| "strings_Join [e] sep = e"
| "strings_Join (e # es) sep = e @ sep @ strings_Join es sep"

subsection \<open>regexp.MatchString\<close>

text \<open>
  \<open>regexp.MatchString(pattern, s)\<close> compiles the pattern and reports whether \<open>s\<close>
  contains a match of it; for a pattern that does not compile it returns \<open>false\<close>
  and a non-nil error.  Go's full pattern syntax is not modelled.  The model
  interprets a fragment exactly: an optional leading \<open>^\<close>, then a sequence of
  items, then an optional final \<open>$\<close>, where an item is a literal ASCII byte, an
  escaped ASCII punctuation byte or a bracket class of ASCII bytes and ranges, with
  an optional repetition \<open>*\<close>, \<open>+\<close>, \<open>?\<close>, \<open>{n}\<close>, \<open>{n,}\<close> or \<open>{n,m}\<close>.  Both
  patterns written in the source (\<open>emailRegexPattern\<close> and the phone pattern of
  the examples) lie in the fragment.  Two kinds of malformed pattern are recognised
  as compile errors: a pattern that starts with a repetition operator, and a
  bracket class that is never closed.  On every other pattern (groups, alternation,
  \<open>.\<close>, negated classes, Perl classes, non-ASCII bytes, patterns longer than 1000
  bytes, ...) the model defers to a parameter \<open>ext\<close> standing for Go's engine on these
  patterns: \<open>ext p = None\<close> when \<open>p\<close> does not compile, and \<open>ext p = Some m\<close> with
  \<open>m\<close> the match predicate otherwise.  Items of the fragment match ASCII bytes
  only, so matching bytes agrees with Go's matching of UTF-8 code points.
\<close>

type_synonym charclass = "(char \<times> char) list"

datatype rx_item = Item charclass nat "nat option"

record Regexp =
  bol :: bool
  items :: "rx_item list"
  eol :: bool

datatype 'a parsed = Ok 'a | SyntaxError | Outside

type_synonym rx_ext = "string \<Rightarrow> (string \<Rightarrow> bool) option"

definition isalnum :: "char \<Rightarrow> bool" where
  "isalnum c =
     (isdigit c \<or> (65 \<le> (of_char c :: nat) \<and> (of_char c :: nat) \<le> 90)
      \<or> (97 \<le> (of_char c :: nat) \<and> (of_char c :: nat) \<le> 122))"

definition isascii :: "char \<Rightarrow> bool" where
  "isascii c = ((of_char c :: nat) < 128)"

definition in_class :: "char \<Rightarrow> charclass \<Rightarrow> bool" where
  "in_class c cls =
     list_ex (\<lambda>(lo, hi). (of_char lo :: nat) \<le> of_char c \<and> (of_char c :: nat) \<le> of_char hi) cls"

definition map_parsed :: "('a \<Rightarrow> 'b) \<Rightarrow> 'a parsed \<Rightarrow> 'b parsed" where
  "map_parsed f r = (case r of Ok x \<Rightarrow> Ok (f x) | SyntaxError \<Rightarrow> SyntaxError | Outside \<Rightarrow> Outside)"

text \<open>
  The body of a bracket class, read as Go's class parser reads it: a byte, or a
  range \<open>lo-hi\<close> when the byte is followed by \<open>-\<close> and something other than the
  closing bracket.  The flag says whether this is the first position of the body.
\<close>

definition class_byte :: "char \<Rightarrow> bool" where
  "class_byte c = (isascii c \<and> c \<noteq> CHR 0x5C \<and> c \<noteq> CHR ''['')"

definition range_follows :: "string \<Rightarrow> bool" where
  "range_follows t = (case t of d # h # _ \<Rightarrow> d = CHR ''-'' \<and> h \<noteq> CHR '']'' | _ \<Rightarrow> False)"

definition add_range :: "char \<times> char \<Rightarrow> (charclass \<times> string) parsed \<Rightarrow> (charclass \<times> string) parsed" where
  "add_range rg p = map_parsed (\<lambda>(cls, r). (rg # cls, r)) p"

fun parse_class :: "bool \<Rightarrow> string \<Rightarrow> (charclass \<times> string) parsed" where
  "parse_class first [] = SyntaxError"
| "parse_class first (c # t) =
     (if c = CHR '']'' then (if first then Outside else Ok ([], t))
      else if \<not> class_byte c \<or> (first \<and> c = CHR ''^'') then Outside
      else if range_follows t then
        (if class_byte (t ! 1) \<and> (of_char c :: nat) \<le> of_char (t ! 1)
         then add_range (c, t ! 1) (parse_class False (drop 2 t))
         else Outside)
      else add_range (c, c) (parse_class False t))"

definition parse_atom :: "char \<Rightarrow> string \<Rightarrow> (charclass \<times> string) parsed" where
  "parse_atom c t =
     (if c = CHR ''['' then parse_class True t
      else if c = CHR 0x5C then
        (case t of
           [] \<Rightarrow> Outside
         | e # t' \<Rightarrow> if isascii e \<and> \<not> isalnum e then Ok ([(e, e)], t') else Outside)
      else if c \<in> set ''.+*?()|]{}^$'' \<or> \<not> isascii c then Outside
      else Ok ([(c, c)], t))"

text \<open>A repetition operator may not be followed by another one within the fragment.\<close>

definition no_second :: "(nat \<times> nat option) \<Rightarrow> string \<Rightarrow> ((nat \<times> nat option) \<times> string) parsed" where
  "no_second r t =
     (case t of
        [] \<Rightarrow> Ok (r, t)
      | x # _ \<Rightarrow> if x \<in> set ''*+?{'' then Outside else Ok (r, t))"

definition count_ok :: "string \<Rightarrow> bool" where
  "count_ok ds =
     (case ds of
        [] \<Rightarrow> False
      | d # ds' \<Rightarrow> (ds' = [] \<or> d \<noteq> CHR ''0'') \<and> length ds \<le> 4 \<and> digits_val ds \<le> 1000)"

definition parse_braces :: "string \<Rightarrow> ((nat \<times> nat option) \<times> string) parsed" where
  "parse_braces t =
     (let ds1 = takeWhile isdigit t; r1 = dropWhile isdigit t; n1 = nat (digits_val ds1)
      in if \<not> count_ok ds1 then Outside
         else (case r1 of
                 [] \<Rightarrow> Outside
               | c # r2 \<Rightarrow>
                   if c = CHR ''}'' then no_second (n1, Some n1) r2
                   else if c = CHR '','' then
                     (let ds2 = takeWhile isdigit r2; r3 = dropWhile isdigit r2;
                          n2 = nat (digits_val ds2)
                      in case r3 of
                           [] \<Rightarrow> Outside
                         | d # r4 \<Rightarrow>
                             if d \<noteq> CHR ''}'' then Outside
                             else if ds2 = [] then no_second (n1, None) r4
                             else if count_ok ds2 \<and> n1 \<le> n2 then no_second (n1, Some n2) r4
                             else Outside)
                   else Outside))"

definition parse_repeat :: "string \<Rightarrow> ((nat \<times> nat option) \<times> string) parsed" where
  "parse_repeat t =
     (case t of
        [] \<Rightarrow> Ok ((1, Some 1), t)
      | q # t' \<Rightarrow>
          if q = CHR ''*'' then no_second (0, None) t'
          else if q = CHR ''+'' then no_second (1, None) t'
          else if q = CHR ''?'' then no_second (0, Some 1) t'
          else if q = CHR ''{'' then parse_braces t'
          else Ok ((1, Some 1), t))"

text \<open>Every parser of the fragment consumes input; the items parser terminates for it.\<close>

lemma add_range_Ok:
  "add_range rg p = Ok (cls, r) \<Longrightarrow> \<exists>cls'. p = Ok (cls', r)"
  by (cases p) (auto simp: add_range_def map_parsed_def)

lemma parse_class_length:
  "parse_class first t = Ok (cls, r) \<Longrightarrow> length r < length t"
proof (induction first t arbitrary: cls r rule: parse_class.induct)
  case (1 first)
  then show ?case by simp
next
  case (2 first c t)
  show ?case
  proof (cases "c = CHR '']''")
    case True
    with "2.prems" show ?thesis by (auto split: if_splits)
  next
    case nb: False
    show ?thesis
    proof (cases "\<not> class_byte c \<or> (first \<and> c = CHR ''^'')")
      case True
      with nb "2.prems" show ?thesis by (auto split: if_splits)
    next
      case ok: False
      show ?thesis
      proof (cases "range_follows t")
        case rf: True
        show ?thesis
        proof (cases "class_byte (t ! 1) \<and> (of_char c :: nat) \<le> of_char (t ! 1)")
          case True
          with nb ok rf "2.prems" have "add_range (c, t ! 1) (parse_class False (drop 2 t)) = Ok (cls, r)"
            by (auto split: if_splits)
          then obtain cls' where "parse_class False (drop 2 t) = Ok (cls', r)"
            by (blast dest: add_range_Ok)
          from "2.IH"(1)[OF nb ok rf True this] show ?thesis by simp
        next
          case False
          with nb ok rf "2.prems" show ?thesis by (auto split: if_splits)
        qed
      next
        case nrf: False
        with nb ok "2.prems" have "add_range (c, c) (parse_class False t) = Ok (cls, r)"
          by (auto split: if_splits)
        then obtain cls' where "parse_class False t = Ok (cls', r)"
          by (blast dest: add_range_Ok)
        from "2.IH"(2)[OF nb ok nrf this] show ?thesis by simp
      qed
    qed
  qed
qed

lemma parse_atom_length:
  "parse_atom c t = Ok (cls, r) \<Longrightarrow> length r \<le> length t"
  unfolding parse_atom_def
  by (auto split: if_splits list.splits dest: parse_class_length)

lemma no_second_rest:
  "no_second q t = Ok (q', r) \<Longrightarrow> r = t"
  by (auto simp: no_second_def split: if_splits list.splits)

lemma parse_braces_length:
  assumes "parse_braces t = Ok (q, r)"
  shows "length r \<le> length t"
proof -
  have d: "\<And>xs y ys. dropWhile isdigit xs = y # ys \<Longrightarrow> length ys < length xs"
  proof -
    fix xs :: string and y ys assume "dropWhile isdigit xs = y # ys"
    then have "length (y # ys) \<le> length xs"
      by (metis length_dropWhile_le)
    then show "length ys < length xs" by simp
  qed
  from assms obtain c r2 where r1: "dropWhile isdigit t = c # r2"
    unfolding parse_braces_def Let_def
    by (simp split: if_splits list.splits)
  show ?thesis
  proof (cases "c = CHR ''}''")
    case True
    with assms r1 have "r = r2"
      unfolding parse_braces_def Let_def
      by (simp split: if_splits add: no_second_rest)
    with d[OF r1] show ?thesis by simp
  next
    case False
    with assms r1 obtain d' r4 where r3: "dropWhile isdigit r2 = d' # r4" and "r = r4"
      unfolding parse_braces_def Let_def
      by (simp split: if_splits list.splits) (auto dest: no_second_rest)
    with d[OF r1] d[OF r3] show ?thesis by simp
  qed
qed

lemma parse_repeat_length:
  "parse_repeat t = Ok (q, r) \<Longrightarrow> length r \<le> length t"
  unfolding parse_repeat_def
  by (auto split: list.splits if_splits dest: no_second_rest parse_braces_length)

function parse_items :: "string \<Rightarrow> (rx_item list \<times> bool) parsed" where
  "parse_items [] = Ok ([], False)"
| "parse_items (c # t) =
     (if c = CHR ''$'' \<and> t = [] then Ok ([], True)
      else (case parse_atom c t of
              Ok (cls, t1) \<Rightarrow>
                (case parse_repeat t1 of
                   Ok ((lo, hi), t2) \<Rightarrow>
                     map_parsed (\<lambda>(its, e). (Item cls lo hi # its, e)) (parse_items t2)
                 | SyntaxError \<Rightarrow> SyntaxError
                 | Outside \<Rightarrow> Outside)
            | SyntaxError \<Rightarrow> SyntaxError
            | Outside \<Rightarrow> Outside))"
  by pat_completeness auto
termination
proof (relation "measure length")
  show "wf (measure length)" by simp
next
  fix c :: char and t :: string and x1 cls t1 x1a q t2 lo hi
  assume "parse_atom c t = Ok x1" "(cls, t1) = x1" "parse_repeat t1 = Ok x1a"
     "(q, t2) = x1a" "(lo, hi) = q"
  then have "length t1 \<le> length t" "length t2 \<le> length t1"
    by (auto dest: parse_atom_length parse_repeat_length)
  then show "(t2, c # t) \<in> measure length" by simp
qed

definition compile :: "string \<Rightarrow> Regexp parsed" where
  "compile p =
     (if 1000 < length p then Outside
      else (case p of
              [] \<Rightarrow> Ok \<lparr>bol = False, items = [], eol = False\<rparr>
            | c # t \<Rightarrow>
                if c \<in> set ''*+?'' then SyntaxError
                else if c = CHR ''^''
                then map_parsed (\<lambda>(its, e). \<lparr>bol = True, items = its, eol = e\<rparr>) (parse_items t)
                else map_parsed (\<lambda>(its, e). \<lparr>bol = False, items = its, eol = e\<rparr>) (parse_items p)))"

text \<open>
  Matching.  \<open>match_items its e s\<close>: some prefix of \<open>s\<close> (all of \<open>s\<close> when \<open>e\<close>, for a
  final \<open>$\<close>) is a concatenation of one block per item, each block made of bytes of
  the item's class and of a length the repetition allows.  \<open>search\<close> tries every
  start position unless the pattern starts with \<open>^\<close>.
\<close>

fun match_items :: "rx_item list \<Rightarrow> bool \<Rightarrow> string \<Rightarrow> bool" where
  "match_items [] e s = (if e then s = [] else True)"
| "match_items (Item cls lo hi # its) e s =
     (let k = length (takeWhile (\<lambda>c. in_class c cls) s);
          top = (case hi of None \<Rightarrow> k | Some h \<Rightarrow> min h k)
      in list_ex (\<lambda>n. match_items its e (drop n s)) [lo ..< Suc top])"

definition search :: "Regexp \<Rightarrow> string \<Rightarrow> bool" where
  "search re s =
     (if bol re then match_items (items re) (eol re) s
      else list_ex (\<lambda>i. match_items (items re) (eol re) (drop i s)) [0 ..< Suc (length s)])"

definition regexp_MatchString :: "rx_ext \<Rightarrow> string \<Rightarrow> string \<Rightarrow> bool \<times> bool" where
  "regexp_MatchString ext pattern s =
     (case compile pattern of
        Ok re \<Rightarrow> (search re s, False)
      | SyntaxError \<Rightarrow> (False, True)
      | Outside \<Rightarrow> (case ext pattern of None \<Rightarrow> (False, True) | Some m \<Rightarrow> (m s, False)))"

text \<open>
  A stand-in for the engine outside the fragment, for evaluating the model on
  patterns of the fragment, where it is not consulted.
\<close>

definition no_ext :: rx_ext where
  "no_ext = (\<lambda>p. None)"

section \<open>The validator\<close>

subsection \<open>Reflected values\<close>

text \<open>
  A \<open>reflect.Value\<close> of a struct field, as far as the validator observes it: its
  kind, \<open>IsZero()\<close>, \<open>String()\<close> and \<open>Int()\<close>.  The constructors are the three groups
  of kinds the source's \<open>switch\<close> statements tell apart: kind \<open>String\<close>, with the
  text; the five signed integer kinds \<open>Int\<close>, \<open>Int8\<close>, \<open>Int16\<close>, \<open>Int32\<close>, \<open>Int64\<close>,
  with the name of the type and the number \<open>Int()\<close> returns; and every other kind,
  with the name of the type and the result of \<open>IsZero()\<close>.
\<close>

datatype IntKind = KInt | KInt8 | KInt16 | KInt32 | KInt64

datatype Value =
    StringValue string
  | IntValue IntKind string int
  | OtherValue string bool

fun IsZero :: "Value \<Rightarrow> bool" where
  "IsZero (StringValue s) = (s = [])"
| "IsZero (IntValue k t n) = (n = 0)"
| "IsZero (OtherValue t z) = z"

text \<open>
  \<open>Value.String()\<close> returns the text of a value of kind \<open>String\<close>, and for any
  other kind the placeholder \<open><T Value>\<close> with \<open>T\<close> the name of the value's type.
\<close>

fun Value_String :: "Value \<Rightarrow> string" where
  "Value_String (StringValue s) = s"
| "Value_String (IntValue k t n) = ''<'' @ t @ '' Value>''"
| "Value_String (OtherValue t z) = ''<'' @ t @ '' Value>''"

text \<open>
  A struct field: its name, what \<open>Tag.Get("validate")\<close> returns for it (the empty
  string when the tag has no such key) and its value.
\<close>

record Field =
  Name :: string
  Tag :: string
  Val :: Value

text \<open>
  \<open>reflect.ValueOf(s)\<close> for the argument of \<open>Validate\<close>: a struct with its fields in
  declaration order, a pointer with what \<open>Elem()\<close> gives (\<open>Invalid\<close> for a nil
  pointer), the invalid value (of a nil interface), or a value of any other kind.
\<close>

datatype Reflected = Invalid | Struct "Field list" | Pointer Reflected | Other

subsection \<open>Constants and types of the package\<close>

text \<open>
  The string constants of the package.  The Go names \<open>min\<close> and \<open>max\<close> are HOL
  functions, so every constant carries the prefix \<open>const_\<close>.
\<close>

definition const_validate :: string where "const_validate = ''validate''"
definition const_required :: string where "const_required = ''required''"
definition const_min :: string where "const_min = ''min''"
definition const_max :: string where "const_max = ''max''"
definition const_email :: string where "const_email = ''email''"
definition const_regex :: string where "const_regex = ''regex''"

definition emailRegexPattern :: string where
  "emailRegexPattern =
     ''^[a-zA-Z0-9._%+-]+@[a-zA-Z0-9.-]+'' @ [CHR 0x5C] @ ''.[a-zA-Z]{2,}$''"

text \<open>\<open>ValidationError\<close>; the Go field \<open>Field\<close> is written \<open>Field_of\<close>.\<close>

record ValidationError =
  Field_of :: string
  Message :: string

text \<open>
  A custom validation function, as a function from the field's value to the message
  of the error it returns (\<open>None\<close> for \<open>nil\<close>).  Side effects of the Go closure
  are outside the model.
\<close>

type_synonym CustomValidatorFunc = "Value \<Rightarrow> string option"

text \<open>
  The values of type \<open>error\<close> that \<open>Validate\<close> returns: an error made by
  \<open>fmt.Errorf\<close>, or the \<open>ValidationErrors\<close> slice.
\<close>

datatype error = errorString string | ValidationErrors "ValidationError list"

text \<open>The method \<open>ValidationErrors.Error\<close>: the loop that fills \<open>errMsgs\<close>, then the join.\<close>

fun errMsgs_loop :: "string list \<Rightarrow> ValidationError list \<Rightarrow> string list" where
  "errMsgs_loop errMsgs [] = errMsgs"
| "errMsgs_loop errMsgs (errVal # ve) =
     errMsgs_loop (errMsgs @ [Field_of errVal @ '' : '' @ Message errVal]) ve"

definition ValidationErrors_Error :: "ValidationError list \<Rightarrow> string" where
  "ValidationErrors_Error ve = strings_Join (errMsgs_loop [] ve) ''; ''"

fun Error :: "error \<Rightarrow> string" where
  "Error (errorString s) = s"
| "Error (ValidationErrors ve) = ValidationErrors_Error ve"

subsection \<open>The Validator and its methods\<close>

text \<open>
  The struct \<open>Validator\<close>, with one field more than in the source: \<open>calls\<close> logs
  every invocation of a custom validation function, as the token it was found
  under and the name of the field it was given.  Nothing reads \<open>calls\<close>.
\<close>

record Validator =
  errors :: "ValidationError list"
  customValidators :: "string \<rightharpoonup> CustomValidatorFunc"
  calls :: "(string \<times> string) list"

definition New :: Validator where
  "New = \<lparr>errors = [], customValidators = Map.empty, calls = []\<rparr>"


text \<open>\<open>isMatchedRegex\<close> drops the error of \<open>regexp.MatchString\<close>.\<close>

definition isMatchedRegex :: "rx_ext \<Rightarrow> string \<Rightarrow> string \<Rightarrow> bool" where
  "isMatchedRegex ext val pattern = fst (regexp_MatchString ext pattern val)"

text \<open>
  \<open>validateMin\<close> and \<open>validateMax\<close>.  In \<open>validateMin\<close> the local variable \<open>min\<close> holds
  the parsed bound.  In \<open>validateMax\<close> the local variable is \<open>max\<close>, and the \<open>min\<close>
  handed to \<open>%d\<close> in both messages is the package's string constant.
\<close>

definition validateMin :: "Value \<Rightarrow> string \<Rightarrow> string option" where
  "validateMin currentFieldVal minVlaue =
     (case strconv_Atoi minVlaue of
        None \<Rightarrow> Some ''invalid min value''
      | Some m \<Rightarrow>
          (case currentFieldVal of
             StringValue s \<Rightarrow>
               if int (length s) < m then Some (''length must be at least '' @ fmt_d m) else None
           | IntValue k t n \<Rightarrow>
               if n < m then Some (''value must be at least '' @ fmt_d m) else None
           | OtherValue t z \<Rightarrow> None))"

definition validateMax :: "Value \<Rightarrow> string \<Rightarrow> string option" where
  "validateMax currentFieldVal maxValue =
     (case strconv_Atoi maxValue of
        None \<Rightarrow> Some ''invalid max value''
      | Some m \<Rightarrow>
          (case currentFieldVal of
             StringValue s \<Rightarrow>
               if int (length s) > m then Some (''length must be at least '' @ fmt_d_string const_min)
               else None
           | IntValue k t n \<Rightarrow>
               if n > m then Some (''value must be at least '' @ fmt_d_string const_min) else None
           | OtherValue t z \<Rightarrow> None))"

text \<open>
  The first lines of \<open>applyValidationRule\<close>: the rule is split at every \<open>=\<close>;
  \<open>parts[0]\<close> trimmed of spaces is the rule's name, \<open>parts[1]\<close> trimmed of spaces,
  when there is one, its value.  \<open>strings.Split\<close> returns at least one piece, so
  \<open>parts[0]\<close> exists.
\<close>

definition ruleName :: "string \<Rightarrow> string" where
  "ruleName rule = strings_Trim (strings_Split rule (CHR ''='') ! 0) '' ''"

definition ruleValue :: "string \<Rightarrow> string" where
  "ruleValue rule =
     (let parts = strings_Split rule (CHR ''='')
      in if length parts > 1 then strings_Trim (parts ! 1) '' '' else [])"

definition applyValidationRule :: "rx_ext \<Rightarrow> string \<Rightarrow> Value \<Rightarrow> string \<Rightarrow> string option" where
  "applyValidationRule ext rule currentFiledVal fieldName =
     (if ruleName rule = const_required then
        (if IsZero currentFiledVal then Some ''field is required'' else None)
      else if ruleName rule = const_min then validateMin currentFiledVal (ruleValue rule)
      else if ruleName rule = const_max then validateMax currentFiledVal (ruleValue rule)
      else if ruleName rule = const_email then
        (if \<not> isMatchedRegex ext (Value_String currentFiledVal) emailRegexPattern
         then Some ''invalid email format'' else None)
      else if ruleName rule = const_regex then
        (if \<not> isMatchedRegex ext (Value_String currentFiledVal) (ruleValue rule)
         then Some ''value does not match required format'' else None)
      else None)"

text \<open>
  \<open>validateFields\<close>: the loop over the fields and, for a field with a tag, the loop
  over its rules.  \<open>applyCustomValidators\<close> has the same two loops.
\<close>

fun validateFields_rules :: "rx_ext \<Rightarrow> Validator \<Rightarrow> Field \<Rightarrow> string list \<Rightarrow> Validator" where
  "validateFields_rules ext v currentField [] = v"
| "validateFields_rules ext v currentField (rule # rules) =
     (case applyValidationRule ext rule (Val currentField) (Name currentField) of
        Some err \<Rightarrow>
          validateFields_rules ext
            (v\<lparr>errors := errors v @ [\<lparr>Field_of = Name currentField, Message = err\<rparr>]\<rparr>)
            currentField rules
      | None \<Rightarrow> validateFields_rules ext v currentField rules)"

fun validateFields :: "rx_ext \<Rightarrow> Validator \<Rightarrow> Field list \<Rightarrow> Validator" where
  "validateFields ext v [] = v"
| "validateFields ext v (currentField # fs) =
     (if Tag currentField = [] then validateFields ext v fs
      else validateFields ext
             (validateFields_rules ext v currentField (strings_Split (Tag currentField) (CHR '','')))
             fs)"

fun applyCustomValidators_rules :: "Validator \<Rightarrow> Field \<Rightarrow> string list \<Rightarrow> Validator" where
  "applyCustomValidators_rules v currentField [] = v"
| "applyCustomValidators_rules v currentField (rule # rules) =
     (case customValidators v rule of
        Some validator \<Rightarrow>
          (let v' = v\<lparr>calls := calls v @ [(rule, Name currentField)]\<rparr>
           in case validator (Val currentField) of
                Some err \<Rightarrow>
                  applyCustomValidators_rules
                    (v'\<lparr>errors := errors v' @ [\<lparr>Field_of = Name currentField, Message = err\<rparr>]\<rparr>)
                    currentField rules
              | None \<Rightarrow> applyCustomValidators_rules v' currentField rules)
      | None \<Rightarrow> applyCustomValidators_rules v currentField rules)"

fun applyCustomValidators :: "Validator \<Rightarrow> Field list \<Rightarrow> Validator" where
  "applyCustomValidators v [] = v"
| "applyCustomValidators v (currentField # fs) =
     (if Tag currentField = [] then applyCustomValidators v fs
      else applyCustomValidators
             (applyCustomValidators_rules v currentField (strings_Split (Tag currentField) (CHR '','')))
             fs)"

definition Validate :: "rx_ext \<Rightarrow> Validator \<Rightarrow> Reflected \<Rightarrow> error option \<times> Validator" where
  "Validate ext v rVal =
     (let v0 = v\<lparr>errors := []\<rparr>
      in case rVal of
           Pointer structVal \<Rightarrow>
             (case structVal of
                Struct fs \<Rightarrow>
                  (let v1 = validateFields ext v0 fs;
                       v2 = applyCustomValidators v1 fs
                   in if length (errors v2) > 0 then (Some (ValidationErrors (errors v2)), v2)
                      else (None, v2))
              | _ \<Rightarrow> (Some (errorString ''refOut must be a pointer struct !''), v0))
         | _ \<Rightarrow> (Some (errorString ''validation requires a struct pointer input''), v0))"

section \<open>Notions used in the properties\<close>

text \<open>The well-formed inputs of \<open>Validate\<close>: a pointer whose referent is a struct.\<close>

definition is_struct_pointer :: "Reflected \<Rightarrow> bool" where
  "is_struct_pointer rVal =
     (case rVal of Pointer structVal \<Rightarrow> (case structVal of Struct fs \<Rightarrow> True | _ \<Rightarrow> False)
      | _ \<Rightarrow> False)"










text \<open>The calls the second pass makes for one field, and for all fields, in order.\<close>

definition field_calls :: "(string \<rightharpoonup> CustomValidatorFunc) \<Rightarrow> Field \<Rightarrow> (string \<times> string) list" where
  "field_calls reg f =
     (if Tag f = [] then []
      else map (\<lambda>rule. (rule, Name f))
             (filter (\<lambda>rule. reg rule \<noteq> None) (strings_Split (Tag f) (CHR '',''))))"

text \<open>
  The failures of one field, in the order of its tokens: of the built-in rules, and
  of the registered custom functions.  A field without annotation has none.
\<close>

definition builtin_failures :: "rx_ext \<Rightarrow> Field \<Rightarrow> ValidationError list" where
  "builtin_failures ext f =
     (if Tag f = [] then []
      else List.map_filter
             (\<lambda>rule. map_option (\<lambda>msg. \<lparr>Field_of = Name f, Message = msg\<rparr>)
                        (applyValidationRule ext rule (Val f) (Name f)))
             (strings_Split (Tag f) (CHR '','')))"

definition custom_failures :: "(string \<rightharpoonup> CustomValidatorFunc) \<Rightarrow> Field \<Rightarrow> ValidationError list" where
  "custom_failures reg f =
     (if Tag f = [] then []
      else List.map_filter
             (\<lambda>rule. case reg rule of
                        None \<Rightarrow> None
                      | Some validator \<Rightarrow>
                          map_option (\<lambda>msg. \<lparr>Field_of = Name f, Message = msg\<rparr>)
                            (validator (Val f)))
             (strings_Split (Tag f) (CHR '','')))"

definition all_failures :: "rx_ext \<Rightarrow> (string \<rightharpoonup> CustomValidatorFunc) \<Rightarrow> Field list \<Rightarrow> ValidationError list" where
  "all_failures ext reg fs =
     concat (map (builtin_failures ext) fs) @ concat (map (custom_failures reg) fs)"

text \<open>Successive calls of \<open>Validate\<close> on one validator, each on the state the last left.\<close>

fun Validate_calls :: "rx_ext \<Rightarrow> Validator \<Rightarrow> Reflected list \<Rightarrow> error option list \<times> Validator" where
  "Validate_calls ext v [] = ([], v)"
| "Validate_calls ext v (s # ss) =
     (let (r, v') = Validate ext v s;
          (rs, v'') = Validate_calls ext v' ss
      in (r # rs, v''))"

section \<open>Properties\<close>

subsection \<open>The rendered aggregate\<close>

lemma errMsgs_loop_map:
  "errMsgs_loop acc ve = acc @ map (\<lambda>e. Field_of e @ '' : '' @ Message e) ve"
  by (induction ve arbitrary: acc) simp_all

lemma split_required: "strings_Split ''required'' (CHR '','') = [''required'']"
  by simp

lemma split_age: "strings_Split ''min=18,max=100'' (CHR '','') = [''min=18'', ''max=100'']"
  by simp

lemma rule_required:
  "applyValidationRule ext ''required'' (StringValue []) nm = Some ''field is required''"
  by (simp add: applyValidationRule_def ruleName_def strings_Trim_def const_required_def)

lemma atoi_18: "strconv_Atoi ''18'' = Some 18"
  by (simp add: strconv_Atoi_def isdigit_def digits_val_def digit_val_def)

lemma atoi_100: "strconv_Atoi ''100'' = Some 100"
  by (simp add: strconv_Atoi_def isdigit_def digits_val_def digit_val_def)

lemma fmt_d_18: "fmt_d 18 = ''18''"
  by (simp add: fmt_d_def fmt_nat.simps digit_char_def)

lemma rule_min18:
  "applyValidationRule ext ''min=18'' (IntValue k t 15) nm = Some ''value must be at least 18''"
  by (simp add: applyValidationRule_def ruleName_def ruleValue_def strings_Trim_def
      const_required_def const_min_def validateMin_def atoi_18 fmt_d_18)

lemma rule_max100:
  "applyValidationRule ext ''max=100'' (IntValue k t 15) nm = None"
  by (simp add: applyValidationRule_def ruleName_def ruleValue_def strings_Trim_def
      const_required_def const_min_def const_max_def validateMax_def atoi_100)

text \<open>
  Claim C1.  \<open>Validate\<close> on a pointer to the record with field \<open>Name\<close>, a string
  tagged \<open>required\<close> and empty, and field \<open>Age\<close>, an integer tagged
  \<open>min=18,max=100\<close> and holding 15, returns the aggregate of the two errors
  \<open>Name : field is required\<close> and \<open>Age : value must be at least 18\<close>, whose text is
  exactly \<open>Name : field is required; Age : value must be at least 18\<close>; and the text
  of every aggregate is its errors' clauses \<open>field : message\<close>, in the order in which
  they were accumulated, joined with \<open>; \<close>.  The validator is any one that has no
  custom function registered under the three tokens of the record, \<open>New\<close> included.
\<close>

theorem C1_person_aggregate:
  assumes "customValidators v ''required'' = None"
    and "customValidators v ''min=18'' = None"
    and "customValidators v ''max=100'' = None"
  shows "fst (Validate ext v (Pointer (Struct
            [\<lparr>Name = ''Name'', Tag = ''required'', Val = StringValue ''''\<rparr>,
             \<lparr>Name = ''Age'', Tag = ''min=18,max=100'', Val = IntValue k t 15\<rparr>])))
         = Some (ValidationErrors
            [\<lparr>Field_of = ''Name'', Message = ''field is required''\<rparr>,
             \<lparr>Field_of = ''Age'', Message = ''value must be at least 18''\<rparr>])
       \<and> Error (ValidationErrors
            [\<lparr>Field_of = ''Name'', Message = ''field is required''\<rparr>,
             \<lparr>Field_of = ''Age'', Message = ''value must be at least 18''\<rparr>])
         = ''Name : field is required; Age : value must be at least 18''
       \<and> (\<forall>ve. Error (ValidationErrors ve)
            = strings_Join (map (\<lambda>e. Field_of e @ '' : '' @ Message e) ve) ''; '')"
proof (intro conjI allI)
  show "fst (Validate ext v (Pointer (Struct
            [\<lparr>Name = ''Name'', Tag = ''required'', Val = StringValue ''''\<rparr>,
             \<lparr>Name = ''Age'', Tag = ''min=18,max=100'', Val = IntValue k t 15\<rparr>])))
         = Some (ValidationErrors
            [\<lparr>Field_of = ''Name'', Message = ''field is required''\<rparr>,
             \<lparr>Field_of = ''Age'', Message = ''value must be at least 18''\<rparr>])"
    using assms
    by (simp add: Validate_def split_required split_age rule_required rule_min18 rule_max100
        del: strings_Split.simps)
next
  show "Error (ValidationErrors
            [\<lparr>Field_of = ''Name'', Message = ''field is required''\<rparr>,
             \<lparr>Field_of = ''Age'', Message = ''value must be at least 18''\<rparr>])
         = ''Name : field is required; Age : value must be at least 18''"
    by (simp add: ValidationErrors_Error_def)
next
  fix ve
  show "Error (ValidationErrors ve)
            = strings_Join (map (\<lambda>e. Field_of e @ '' : '' @ Message e) ve) ''; ''"
    by (simp add: ValidationErrors_Error_def errMsgs_loop_map)
qed

theorem C1_person_aggregate_witness:
  "customValidators New ''required'' = None
   \<and> customValidators New ''min=18'' = None
   \<and> customValidators New ''max=100'' = None
   \<and> map_option Error (fst (Validate no_ext New (Pointer (Struct
            [\<lparr>Name = ''Name'', Tag = ''required'', Val = StringValue ''''\<rparr>,
             \<lparr>Name = ''Age'', Tag = ''min=18,max=100'', Val = IntValue KInt ''int'' 15\<rparr>]))))
       = Some ''Name : field is required; Age : value must be at least 18''"
proof -
  have r: "customValidators New ''required'' = None" by (simp add: New_def)
  have m: "customValidators New ''min=18'' = None" by (simp add: New_def)
  have x: "customValidators New ''max=100'' = None" by (simp add: New_def)
  from C1_person_aggregate [OF r m x, of no_ext KInt "''int''"] r m x
  show ?thesis by simp
qed

subsection \<open>Malformed input\<close>

text \<open>
  Claim C2.  For every input that is not a pointer, or is a pointer whose referent
  is not a struct, \<open>Validate\<close> returns an error made by \<open>fmt.Errorf\<close> (the first message
  for a non-pointer, the second for a pointer to a non-struct), never a
  \<open>ValidationErrors\<close> value; and it returns with the accumulator empty and everything
  else of the validator as it was: no field was processed, no custom function called.
\<close>

theorem C2_malformed_input:
  assumes "\<not> is_struct_pointer rVal"
  shows "fst (Validate ext v rVal)
           = Some (errorString (case rVal of
                Pointer structVal \<Rightarrow> ''refOut must be a pointer struct !''
              | _ \<Rightarrow> ''validation requires a struct pointer input''))
         \<and> (\<forall>ve. fst (Validate ext v rVal) \<noteq> Some (ValidationErrors ve))
         \<and> snd (Validate ext v rVal) = v\<lparr>errors := []\<rparr>"
proof (cases rVal)
  case (Pointer structVal)
  with assms show ?thesis
    by (cases structVal) (simp_all add: Validate_def is_struct_pointer_def)
qed (simp_all add: Validate_def)

theorem C2_malformed_input_witness:
  "\<not> is_struct_pointer (Struct [\<lparr>Name = ''Name'', Tag = ''required'', Val = StringValue ''''\<rparr>])
   \<and> Validate no_ext New (Struct [\<lparr>Name = ''Name'', Tag = ''required'', Val = StringValue ''''\<rparr>])
       = (Some (errorString ''validation requires a struct pointer input''), New)
   \<and> \<not> is_struct_pointer (Pointer (Pointer (Struct [\<lparr>Name = ''Name'', Tag = ''required'', Val = StringValue ''''\<rparr>])))
   \<and> Validate no_ext New (Pointer (Pointer (Struct [\<lparr>Name = ''Name'', Tag = ''required'', Val = StringValue ''''\<rparr>])))
       = (Some (errorString ''refOut must be a pointer struct !''), New)"
proof -
  let ?s = "Struct [\<lparr>Name = ''Name'', Tag = ''required'', Val = StringValue ''''\<rparr>]"
  have a: "\<not> is_struct_pointer ?s" by (simp add: is_struct_pointer_def)
  have b: "\<not> is_struct_pointer (Pointer (Pointer ?s))" by (simp add: is_struct_pointer_def)
  have n: "New\<lparr>errors := []\<rparr> = New" by (simp add: New_def)
  from C2_malformed_input [OF a, of no_ext New] C2_malformed_input [OF b, of no_ext New] a b n
  show ?thesis by (simp add: prod_eq_iff)
qed

subsection \<open>The bounds\<close>










subsection \<open>The matcher decides the denotation of a pattern\<close>











subsection \<open>The email and regex rules\<close>















lemma rules_distinct:
  "const_email \<noteq> const_required" "const_email \<noteq> const_min" "const_email \<noteq> const_max"
  "const_regex \<noteq> const_required" "const_regex \<noteq> const_min" "const_regex \<noteq> const_max"
  "const_regex \<noteq> const_email"
  by (simp_all add: const_email_def const_regex_def const_required_def const_min_def
      const_max_def)


lemma apply_regex:
  "ruleName rule = ''regex'' \<Longrightarrow>
   applyValidationRule ext rule v nm
     = (if isMatchedRegex ext (Value_String v) (ruleValue rule) then None
        else Some ''value does not match required format'')"
  using rules_distinct by (simp add: applyValidationRule_def const_regex_def [symmetric])

lemma rule_regex_b: "ruleName ''regex=b'' = ''regex'' \<and> ruleValue ''regex=b'' = ''b''"
  by (simp add: ruleName_def ruleValue_def strings_Trim_def)





subsection \<open>Configuration errors\<close>

lemma MatchString_error_no_match:
  "snd (regexp_MatchString ext p s) \<Longrightarrow> \<not> fst (regexp_MatchString ext p s)"
  by (auto simp: regexp_MatchString_def split: parsed.splits option.splits)

lemma rule_regex_unclosed: "ruleName ''regex=[a'' = ''regex'' \<and> ruleValue ''regex=[a'' = ''[a''"
  by (simp add: ruleName_def ruleValue_def strings_Trim_def)

lemma compile_unclosed: "compile ''[a'' = SyntaxError"
  by code_simp

text \<open>
  The token \<open>regex=[a\<close>, whose pattern does not compile, and the token \<open>regex=b\<close>,
  whose pattern compiles and does not match, on the same field with the text \<open>a\<close>:
  \<open>regexp.MatchString\<close> returns an error for the first and none for the second, and
  \<open>Validate\<close> returns the same aggregate for both.
\<close>

theorem C5_invalid_pattern_counterexample:
  "regexp_MatchString no_ext (ruleValue ''regex=[a'') ''a'' = (False, True)
   \<and> regexp_MatchString no_ext (ruleValue ''regex=b'') ''a'' = (False, False)
   \<and> fst (Validate no_ext New (Pointer (Struct
          [\<lparr>Name = ''F'', Tag = ''regex=[a'', Val = StringValue ''a''\<rparr>])))
       = Some (ValidationErrors
          [\<lparr>Field_of = ''F'', Message = ''value does not match required format''\<rparr>])
   \<and> fst (Validate no_ext New (Pointer (Struct
          [\<lparr>Name = ''F'', Tag = ''regex=b'', Val = StringValue ''a''\<rparr>])))
       = Some (ValidationErrors
          [\<lparr>Field_of = ''F'', Message = ''value does not match required format''\<rparr>])"
proof -
  have m1: "regexp_MatchString no_ext (ruleValue ''regex=[a'') ''a'' = (False, True)"
    by (simp add: rule_regex_unclosed compile_unclosed regexp_MatchString_def)
  have m2: "regexp_MatchString no_ext (ruleValue ''regex=b'') ''a'' = (False, False)"
    by code_simp
  have s1: "strings_Split ''regex=[a'' (CHR '','') = [''regex=[a'']" by simp
  have s2: "strings_Split ''regex=b'' (CHR '','') = [''regex=b'']" by simp
  have a1: "applyValidationRule no_ext ''regex=[a'' (StringValue ''a'') ''F''
              = Some ''value does not match required format''"
    using m1 by (simp add: apply_regex rule_regex_unclosed isMatchedRegex_def)
  have a2: "applyValidationRule no_ext ''regex=b'' (StringValue ''a'') ''F''
              = Some ''value does not match required format''"
    using m2 by (simp add: apply_regex rule_regex_b isMatchedRegex_def)
  have v1: "fst (Validate no_ext New (Pointer (Struct
          [\<lparr>Name = ''F'', Tag = ''regex=[a'', Val = StringValue ''a''\<rparr>])))
       = Some (ValidationErrors
          [\<lparr>Field_of = ''F'', Message = ''value does not match required format''\<rparr>])"
    by (simp add: Validate_def New_def s1 a1 del: strings_Split.simps)
  have v2: "fst (Validate no_ext New (Pointer (Struct
          [\<lparr>Name = ''F'', Tag = ''regex=b'', Val = StringValue ''a''\<rparr>])))
       = Some (ValidationErrors
          [\<lparr>Field_of = ''F'', Message = ''value does not match required format''\<rparr>])"
    by (simp add: Validate_def New_def s2 a2 del: strings_Split.simps)
  from m1 m2 v1 v2 show ?thesis by simp
qed

text \<open>
  Claim C5, amended.  When \<open>regexp.MatchString\<close> returns an error for the parameter
  of a regex token (the pattern does not compile), the error is dropped and the rule
  fails with \<open>value does not match required format\<close>, the message of a value that
  does not match.  A min or max token whose parameter \<open>strconv.Atoi\<close> rejects fails
  with \<open>invalid min value\<close> or \<open>invalid max value\<close>.  Each of these failures is
  appended to the accumulator as an entry of the field, and the loop goes on with the
  field's remaining rules: the call is not aborted.
\<close>

theorem C5_configuration_errors:
  assumes "ruleName rule_r = ''regex''"
    and "snd (regexp_MatchString ext (ruleValue rule_r) (Value_String (Val f)))"
    and "ruleName rule_min = ''min''" and "strconv_Atoi (ruleValue rule_min) = None"
    and "ruleName rule_max = ''max''" and "strconv_Atoi (ruleValue rule_max) = None"
  shows "applyValidationRule ext rule_r (Val f) (Name f)
           = Some ''value does not match required format''
       \<and> applyValidationRule ext rule_min (Val f) (Name f) = Some ''invalid min value''
       \<and> applyValidationRule ext rule_max (Val f) (Name f) = Some ''invalid max value''
       \<and> validateFields_rules ext v f (rule_r # rules)
           = validateFields_rules ext
               (v\<lparr>errors := errors v
                   @ [\<lparr>Field_of = Name f, Message = ''value does not match required format''\<rparr>]\<rparr>)
               f rules
       \<and> validateFields_rules ext v f (rule_min # rules)
           = validateFields_rules ext
               (v\<lparr>errors := errors v @ [\<lparr>Field_of = Name f, Message = ''invalid min value''\<rparr>]\<rparr>)
               f rules
       \<and> validateFields_rules ext v f (rule_max # rules)
           = validateFields_rules ext
               (v\<lparr>errors := errors v @ [\<lparr>Field_of = Name f, Message = ''invalid max value''\<rparr>]\<rparr>)
               f rules"
proof -
  from assms(2) have "\<not> isMatchedRegex ext (Value_String (Val f)) (ruleValue rule_r)"
    unfolding isMatchedRegex_def by (rule MatchString_error_no_match)
  with assms(1) have r: "applyValidationRule ext rule_r (Val f) (Name f)
           = Some ''value does not match required format''"
    by (simp add: apply_regex)
  from assms(3,4) have mi: "applyValidationRule ext rule_min (Val f) (Name f)
      = Some ''invalid min value''"
    by (simp add: applyValidationRule_def const_required_def const_min_def validateMin_def)
  from assms(5,6) have ma: "applyValidationRule ext rule_max (Val f) (Name f)
      = Some ''invalid max value''"
    by (simp add: applyValidationRule_def const_required_def const_min_def const_max_def
        validateMax_def)
  from r mi ma show ?thesis by simp
qed

theorem C5_configuration_errors_witness:
  "ruleName ''regex=[a'' = ''regex''
   \<and> snd (regexp_MatchString no_ext (ruleValue ''regex=[a'') ''a'')
   \<and> ruleName ''min=x'' = ''min'' \<and> strconv_Atoi (ruleValue ''min=x'') = None
   \<and> ruleName ''max'' = ''max'' \<and> strconv_Atoi (ruleValue ''max'') = None
   \<and> errors (validateFields_rules no_ext New
         \<lparr>Name = ''F'', Tag = ''regex=[a,min=x,max'', Val = StringValue ''a''\<rparr>
         [''regex=[a'', ''min=x'', ''max''])
       = [\<lparr>Field_of = ''F'', Message = ''value does not match required format''\<rparr>,
          \<lparr>Field_of = ''F'', Message = ''invalid min value''\<rparr>,
          \<lparr>Field_of = ''F'', Message = ''invalid max value''\<rparr>]"
proof -
  let ?f = "\<lparr>Name = ''F'', Tag = ''regex=[a,min=x,max'', Val = StringValue ''a''\<rparr>"
  have r: "ruleName ''regex=[a'' = ''regex''" by (simp add: rule_regex_unclosed)
  have e: "snd (regexp_MatchString no_ext (ruleValue ''regex=[a'') (Value_String (Val ?f)))"
    by (simp add: rule_regex_unclosed compile_unclosed regexp_MatchString_def)
  have mi: "ruleName ''min=x'' = ''min''" and mv: "strconv_Atoi (ruleValue ''min=x'') = None"
    by (simp_all add: ruleName_def ruleValue_def strings_Trim_def strconv_Atoi_def isdigit_def)
  have ma: "ruleName ''max'' = ''max''" and mx: "strconv_Atoi (ruleValue ''max'') = None"
    by (simp_all add: ruleName_def ruleValue_def strings_Trim_def strconv_Atoi_def)
  note t = C5_configuration_errors [OF r e mi mv ma mx]
  have "errors (validateFields_rules no_ext New ?f [''regex=[a'', ''min=x'', ''max''])
       = [\<lparr>Field_of = ''F'', Message = ''value does not match required format''\<rparr>,
          \<lparr>Field_of = ''F'', Message = ''invalid min value''\<rparr>,
          \<lparr>Field_of = ''F'', Message = ''invalid max value''\<rparr>]"
    using t [of New "[]"] by (simp add: New_def)
  with r e mi mv ma mx show ?thesis by simp
qed

subsection \<open>Tokens\<close>

lemma strings_Split_no_sep: "sep \<notin> set s \<Longrightarrow> strings_Split s sep = [s]"
  by (induction s) auto

lemma strings_Split_at_sep:
  "sep \<notin> set a \<Longrightarrow> strings_Split (a @ sep # rest) sep = a # strings_Split rest sep"
  by (induction a) auto

lemma strings_Split_not_Nil: "strings_Split s sep \<noteq> []"
  by (induction s) (auto split: list.splits)

lemma strings_Trim_parts:
  "\<exists>a b. s = a @ strings_Trim s cutset @ b
      \<and> list_all (\<lambda>c. c \<in> set cutset) a \<and> list_all (\<lambda>c. c \<in> set cutset) b"
proof -
  let ?P = "\<lambda>c. c \<in> set cutset"
  let ?m = "dropWhile ?P s"
  have 1: "s = takeWhile ?P s @ ?m" by simp
  have "rev ?m = takeWhile ?P (rev ?m) @ dropWhile ?P (rev ?m)" by simp
  then have "rev (rev ?m) = rev (takeWhile ?P (rev ?m) @ dropWhile ?P (rev ?m))" by simp
  then have 2: "?m = strings_Trim s cutset @ rev (takeWhile ?P (rev ?m))"
    by (simp add: strings_Trim_def del: takeWhile_dropWhile_id)
  have a: "list_all ?P (takeWhile ?P s)"
    by (auto simp: list_all_iff dest: set_takeWhileD)
  have b: "list_all ?P (rev (takeWhile ?P (rev ?m)))"
    by (auto simp: list_all_iff dest: set_takeWhileD)
  from 1 2 have "s = takeWhile ?P s @ strings_Trim s cutset @ rev (takeWhile ?P (rev ?m))"
    by simp
  with a b show ?thesis by blast
qed

lemma strings_Trim_last: "strings_Trim s cutset \<noteq> t @ [c] \<or> c \<notin> set cutset"
proof (cases "strings_Trim s cutset = t @ [c]")
  case True
  then have "rev (strings_Trim s cutset) = c # rev t" by simp
  then have "dropWhile (\<lambda>c. c \<in> set cutset) (rev (dropWhile (\<lambda>c. c \<in> set cutset) s)) = c # rev t"
    by (simp add: strings_Trim_def)
  then show ?thesis by (simp add: dropWhile_eq_Cons_conv)
qed simp

lemma strings_Trim_first: "strings_Trim s cutset \<noteq> c # t \<or> c \<notin> set cutset"
proof (cases "strings_Trim s cutset = c # t")
  case True
  let ?P = "\<lambda>c. c \<in> set cutset"
  let ?m = "dropWhile ?P s"
  from True have "rev (dropWhile ?P (rev ?m)) = c # t" by (simp add: strings_Trim_def)
  moreover have "rev ?m = takeWhile ?P (rev ?m) @ dropWhile ?P (rev ?m)" by simp
  then have "rev (rev ?m) = rev (takeWhile ?P (rev ?m) @ dropWhile ?P (rev ?m))" by simp
  then have "?m = rev (dropWhile ?P (rev ?m)) @ rev (takeWhile ?P (rev ?m))"
    by (simp del: takeWhile_dropWhile_id)
  ultimately have "?m = c # t @ rev (takeWhile ?P (rev ?m))" by simp
  then show ?thesis by (simp add: dropWhile_eq_Cons_conv)
qed simp

lemma rule_with_value:
  assumes "CHR ''='' \<notin> set name" and "CHR ''='' \<notin> set p1"
  shows "ruleName (name @ ''='' @ p1) = strings_Trim name '' ''"
    and "ruleValue (name @ ''='' @ p1) = strings_Trim p1 '' ''"
    and "ruleName (name @ ''='' @ p1 @ ''='' @ p2) = strings_Trim name '' ''"
    and "ruleValue (name @ ''='' @ p1 @ ''='' @ p2) = strings_Trim p1 '' ''"
proof -
  have 1: "strings_Split (name @ CHR ''='' # p1) (CHR ''='') = [name, p1]"
    using assms strings_Split_at_sep [of "CHR ''=''" name p1]
    by (simp add: strings_Split_no_sep)
  have 2: "strings_Split (name @ CHR ''='' # p1 @ CHR ''='' # p2) (CHR ''='')
             = name # p1 # strings_Split p2 (CHR ''='')"
    using assms strings_Split_at_sep [of "CHR ''=''" name "p1 @ CHR ''='' # p2"]
      strings_Split_at_sep [of "CHR ''=''" p1 p2]
    by simp
  show "ruleName (name @ ''='' @ p1) = strings_Trim name '' ''"
    and "ruleValue (name @ ''='' @ p1) = strings_Trim p1 '' ''"
    by (simp_all add: ruleName_def ruleValue_def 1 del: strings_Split.simps)
  show "ruleName (name @ ''='' @ p1 @ ''='' @ p2) = strings_Trim name '' ''"
    and "ruleValue (name @ ''='' @ p1 @ ''='' @ p2) = strings_Trim p1 '' ''"
    by (simp_all add: ruleName_def ruleValue_def 2 del: strings_Split.simps)
qed

lemma rule_without_value:
  assumes "CHR ''='' \<notin> set tok"
  shows "ruleName tok = strings_Trim tok '' ''" and "ruleValue tok = []"
  using assms by (simp_all add: ruleName_def ruleValue_def strings_Split_no_sep)

lemma untagged_fields_skipped:
  "list_all (\<lambda>f. Tag f = []) fs \<Longrightarrow>
   validateFields ext v fs = v \<and> applyCustomValidators v fs = v"
  by (induction fs) simp_all

text \<open>
  A token with a tab before the name: \<open>strings.Trim(parts[0], " ")\<close> removes spaces
  only, so the name is not \<open>min\<close> and the token is no rule at all, while the same
  token with a space before the name is the min rule.
\<close>

theorem C6_tab_not_trimmed_counterexample:
  "ruleName (CHR 0x09 # ''min=5'') = CHR 0x09 # ''min''
   \<and> applyValidationRule no_ext (CHR 0x09 # ''min=5'') (StringValue ''a'') ''F'' = None
   \<and> ruleName '' min=5'' = ''min''
   \<and> applyValidationRule no_ext '' min=5'' (StringValue ''a'') ''F''
       = Some ''length must be at least 5''"
proof -
  have 1: "ruleName (CHR 0x09 # ''min=5'') = CHR 0x09 # ''min''"
    by (simp add: ruleName_def strings_Trim_def)
  have 2: "applyValidationRule no_ext (CHR 0x09 # ''min=5'') (StringValue ''a'') ''F'' = None"
    by (simp add: applyValidationRule_def 1 const_required_def const_min_def const_max_def
        const_email_def const_regex_def)
  have 3: "ruleName '' min=5'' = ''min''"
    by (simp add: ruleName_def strings_Trim_def)
  have 4: "applyValidationRule no_ext '' min=5'' (StringValue ''a'') ''F''
       = Some ''length must be at least 5''"
    by code_simp
  from 1 2 3 4 show ?thesis by simp
qed

text \<open>
  Claim C6, amended.  The annotation is split at every comma into tokens.  A token
  is split at \<open>=\<close>: the name is the text before the first \<open>=\<close>, the parameter the
  text between the first and the second \<open>=\<close> (up to the end when there is no second
  one; what follows a second \<open>=\<close> is dropped), and a token without \<open>=\<close> has the
  empty parameter.  Space characters (U+0020) around name and parameter are trimmed;
  other white space, a tab for one, stays.  A field whose annotation is empty or
  absent is skipped by both passes, and a record of such fields gives no error
  whatever the values.
\<close>

theorem C6_tokenization:
  assumes "CHR '','' \<notin> set seg"
    and "CHR ''='' \<notin> set name" and "CHR ''='' \<notin> set p1"
    and "CHR ''='' \<notin> set tok"
    and "Tag f = []" and "list_all (\<lambda>f. Tag f = []) fs0" and "Tag g \<noteq> []"
  shows "strings_Split (seg @ '','' @ rest) (CHR '','') = seg # strings_Split rest (CHR '','')
       \<and> strings_Split seg (CHR '','') = [seg]
       \<and> validateFields ext v (g # fs)
           = validateFields ext
               (validateFields_rules ext v g (strings_Split (Tag g) (CHR '',''))) fs
       \<and> applyCustomValidators v (g # fs)
           = applyCustomValidators
               (applyCustomValidators_rules v g (strings_Split (Tag g) (CHR '',''))) fs
       \<and> ruleName (name @ ''='' @ p1 @ ''='' @ p2) = strings_Trim name '' ''
       \<and> ruleValue (name @ ''='' @ p1 @ ''='' @ p2) = strings_Trim p1 '' ''
       \<and> ruleName (name @ ''='' @ p1) = strings_Trim name '' ''
       \<and> ruleValue (name @ ''='' @ p1) = strings_Trim p1 '' ''
       \<and> ruleName tok = strings_Trim tok '' '' \<and> ruleValue tok = []
       \<and> (\<exists>a b. s = a @ strings_Trim s '' '' @ b
             \<and> list_all (\<lambda>c. c = CHR '' '') a \<and> list_all (\<lambda>c. c = CHR '' '') b)
       \<and> (\<forall>t. strings_Trim s '' '' \<noteq> CHR '' '' # t)
       \<and> (\<forall>t. strings_Trim s '' '' \<noteq> t @ '' '')
       \<and> validateFields ext v (f # fs) = validateFields ext v fs
       \<and> applyCustomValidators v (f # fs) = applyCustomValidators v fs
       \<and> Validate ext v (Pointer (Struct fs0)) = (None, v\<lparr>errors := []\<rparr>)"
proof -
  have a: "strings_Split (seg @ '','' @ rest) (CHR '','') = seg # strings_Split rest (CHR '','')"
    using assms(1) strings_Split_at_sep [of "CHR '',''" seg rest] by simp
  have b: "strings_Split seg (CHR '','') = [seg]"
    using assms(1) by (rule strings_Split_no_sep)
  have c: "validateFields ext v (g # fs)
           = validateFields ext
               (validateFields_rules ext v g (strings_Split (Tag g) (CHR '',''))) fs"
    and d: "applyCustomValidators v (g # fs)
           = applyCustomValidators
               (applyCustomValidators_rules v g (strings_Split (Tag g) (CHR '',''))) fs"
    using assms(7) by simp_all
  note e = rule_with_value [OF assms(2) assms(3)]
  note g = rule_without_value [OF assms(4)]
  have h: "\<exists>a b. s = a @ strings_Trim s '' '' @ b
             \<and> list_all (\<lambda>c. c = CHR '' '') a \<and> list_all (\<lambda>c. c = CHR '' '') b"
    using strings_Trim_parts [of s "'' ''"] by simp
  have i: "\<forall>t. strings_Trim s '' '' \<noteq> CHR '' '' # t"
    using strings_Trim_first [of s "'' ''" "CHR '' ''"] by simp
  have j: "\<forall>t. strings_Trim s '' '' \<noteq> t @ '' ''"
    using strings_Trim_last [of s "'' ''" _ "CHR '' ''"] by simp
  have k: "validateFields ext v (f # fs) = validateFields ext v fs"
    and l: "applyCustomValidators v (f # fs) = applyCustomValidators v fs"
    using assms(5) by simp_all
  have m: "Validate ext v (Pointer (Struct fs0)) = (None, v\<lparr>errors := []\<rparr>)"
    using untagged_fields_skipped [OF assms(6)] by (simp add: Validate_def)
  from a b c d e g h i j k l m show ?thesis by blast
qed

theorem C6_tokenization_witness:
  "CHR '','' \<notin> set ''required'' \<and> CHR ''='' \<notin> set ''min '' \<and> CHR ''='' \<notin> set '' 2''
   \<and> CHR ''='' \<notin> set ''required''
   \<and> Tag \<lparr>Name = ''A'', Tag = [], Val = StringValue []\<rparr> = []
   \<and> list_all (\<lambda>f. Tag f = []) [\<lparr>Name = ''A'', Tag = [], Val = StringValue []\<rparr>]
   \<and> Tag \<lparr>Name = ''B'', Tag = ''required'', Val = StringValue []\<rparr> \<noteq> []
   \<and> strings_Split ''required,min = 2=3'' (CHR '','') = [''required'', ''min = 2=3'']
   \<and> ruleName ''min = 2=3'' = ''min'' \<and> ruleValue ''min = 2=3'' = ''2''
   \<and> ruleName ''required'' = ''required'' \<and> ruleValue ''required'' = []
   \<and> Validate no_ext New (Pointer (Struct [\<lparr>Name = ''A'', Tag = [], Val = StringValue []\<rparr>]))
       = (None, New)"
proof -
  let ?f = "\<lparr>Name = ''A'', Tag = [], Val = StringValue []\<rparr>"
  let ?g = "\<lparr>Name = ''B'', Tag = ''required'', Val = StringValue []\<rparr>"
  have 1: "CHR '','' \<notin> set ''required''" and 2: "CHR ''='' \<notin> set ''min ''"
    and 3: "CHR ''='' \<notin> set '' 2''" and 4: "CHR ''='' \<notin> set ''required''"
    and 5: "Tag ?f = []" and 6: "list_all (\<lambda>f. Tag f = []) [?f]" and 7: "Tag ?g \<noteq> []"
    by simp_all
  note t = C6_tokenization [OF 1 2 3 4 5 6 7, of "''min = 2=3''" no_ext New "[]" "''3''" "[]"]
  have tr: "strings_Trim ''min '' '' '' = ''min''" "strings_Trim '' 2'' '' '' = ''2''"
    "strings_Trim ''required'' '' '' = ''required''"
    by (simp_all add: strings_Trim_def)
  have n: "New\<lparr>errors := []\<rparr> = New" by (simp add: New_def)
  have sp: "strings_Split ''min = 2=3'' (CHR '','') = [''min = 2=3'']" by simp
  from t tr n sp 1 2 3 4 5 6 7 show ?thesis
    by (simp del: strings_Split.simps)
qed

subsection \<open>Custom validation functions\<close>

lemma validateFields_rules_frame:
  "customValidators (validateFields_rules ext v f rules) = customValidators v
   \<and> calls (validateFields_rules ext v f rules) = calls v"
  by (induction rules arbitrary: v) (simp_all split: option.splits)

lemma validateFields_frame:
  "customValidators (validateFields ext v fs) = customValidators v
   \<and> calls (validateFields ext v fs) = calls v"
  by (induction fs arbitrary: v) (simp_all add: validateFields_rules_frame)

lemma applyCustomValidators_rules_calls:
  "customValidators (applyCustomValidators_rules v f rules) = customValidators v
   \<and> calls (applyCustomValidators_rules v f rules)
       = calls v @ map (\<lambda>rule. (rule, Name f))
                     (filter (\<lambda>rule. customValidators v rule \<noteq> None) rules)"
proof (induction rules arbitrary: v)
  case Nil
  show ?case by simp
next
  case (Cons rule rules)
  show ?case
  proof (cases "customValidators v rule")
    case None
    then show ?thesis using Cons.IH [of v] by simp
  next
    case (Some validator)
    let ?v' = "v\<lparr>calls := calls v @ [(rule, Name f)]\<rparr>"
    show ?thesis
    proof (cases "validator (Val f)")
      case None
      with Some show ?thesis using Cons.IH [of ?v'] by simp
    next
      case (Some err)
      let ?v'' = "?v'\<lparr>errors := errors ?v' @ [\<lparr>Field_of = Name f, Message = err\<rparr>]\<rparr>"
      from Some \<open>customValidators v rule = Some validator\<close> show ?thesis
        using Cons.IH [of ?v''] by simp
    qed
  qed
qed

lemma applyCustomValidators_calls:
  "customValidators (applyCustomValidators v fs) = customValidators v
   \<and> calls (applyCustomValidators v fs)
       = calls v @ concat (map (field_calls (customValidators v)) fs)"
proof (induction fs arbitrary: v)
  case Nil
  show ?case by simp
next
  case (Cons f fs)
  show ?case
  proof (cases "Tag f = []")
    case True
    then show ?thesis using Cons.IH [of v] by (simp add: field_calls_def)
  next
    case False
    let ?v' = "applyCustomValidators_rules v f (strings_Split (Tag f) (CHR '',''))"
    from False show ?thesis
      using Cons.IH [of ?v'] applyCustomValidators_rules_calls [of v f "strings_Split (Tag f) (CHR '','')"]
      by (simp add: field_calls_def)
  qed
qed







subsection \<open>The order of the aggregate\<close>

lemma validateFields_rules_errors:
  "errors (validateFields_rules ext v f rules)
     = errors v @ List.map_filter
         (\<lambda>rule. map_option (\<lambda>msg. \<lparr>Field_of = Name f, Message = msg\<rparr>)
                    (applyValidationRule ext rule (Val f) (Name f))) rules"
  by (induction rules arbitrary: v) (simp_all add: map_filter_simps split: option.splits)

lemma validateFields_errors:
  "errors (validateFields ext v fs) = errors v @ concat (map (builtin_failures ext) fs)"
  by (induction fs arbitrary: v) (simp_all add: builtin_failures_def validateFields_rules_errors)

lemma applyCustomValidators_rules_errors:
  "errors (applyCustomValidators_rules v f rules)
     = errors v @ List.map_filter
         (\<lambda>rule. case customValidators v rule of
                    None \<Rightarrow> None
                  | Some validator \<Rightarrow>
                      map_option (\<lambda>msg. \<lparr>Field_of = Name f, Message = msg\<rparr>)
                        (validator (Val f))) rules"
proof (induction rules arbitrary: v)
  case Nil
  show ?case by (simp add: map_filter_simps)
next
  case (Cons rule rules)
  show ?case
  proof (cases "customValidators v rule")
    case None
    then show ?thesis using Cons.IH [of v] by (simp add: map_filter_simps)
  next
    case (Some validator)
    let ?v' = "v\<lparr>calls := calls v @ [(rule, Name f)]\<rparr>"
    show ?thesis
    proof (cases "validator (Val f)")
      case None
      with Some show ?thesis using Cons.IH [of ?v'] by (simp add: map_filter_simps)
    next
      case (Some err)
      let ?v'' = "?v'\<lparr>errors := errors ?v' @ [\<lparr>Field_of = Name f, Message = err\<rparr>]\<rparr>"
      from Some \<open>customValidators v rule = Some validator\<close> show ?thesis
        using Cons.IH [of ?v''] by (simp add: map_filter_simps)
    qed
  qed
qed

lemma applyCustomValidators_errors:
  "errors (applyCustomValidators v fs)
     = errors v @ concat (map (custom_failures (customValidators v)) fs)"
proof (induction fs arbitrary: v)
  case Nil
  show ?case by simp
next
  case (Cons f fs)
  show ?case
  proof (cases "Tag f = []")
    case True
    then show ?thesis using Cons.IH [of v] by (simp add: custom_failures_def)
  next
    case False
    let ?v' = "applyCustomValidators_rules v f (strings_Split (Tag f) (CHR '',''))"
    have "customValidators ?v' = customValidators v"
      by (simp add: applyCustomValidators_rules_calls)
    with False show ?thesis
      using Cons.IH [of ?v'] applyCustomValidators_rules_errors [of v f "strings_Split (Tag f) (CHR '','')"]
      by (simp add: custom_failures_def)
  qed
qed

lemma Validate_struct_errors:
  "errors (snd (Validate ext v (Pointer (Struct fs)))) = all_failures ext (customValidators v) fs"
proof -
  let ?v0 = "v\<lparr>errors := []\<rparr>"
  let ?v1 = "validateFields ext ?v0 fs"
  have s: "snd (Validate ext v (Pointer (Struct fs))) = applyCustomValidators ?v1 fs"
    by (simp add: Validate_def Let_def)
  have c: "customValidators ?v1 = customValidators v"
    using validateFields_frame [of ext ?v0 fs] by simp
  have e: "errors ?v1 = concat (map (builtin_failures ext) fs)"
    by (simp add: validateFields_errors)
  show ?thesis
    unfolding s all_failures_def using applyCustomValidators_errors [of ?v1 fs] c e by simp
qed

lemma Validate_struct_result:
  "fst (Validate ext v (Pointer (Struct fs)))
     = (if all_failures ext (customValidators v) fs = [] then None
        else Some (ValidationErrors (all_failures ext (customValidators v) fs)))"
proof -
  have "fst (Validate ext v (Pointer (Struct fs)))
      = (if errors (snd (Validate ext v (Pointer (Struct fs)))) = [] then None
         else Some (ValidationErrors (errors (snd (Validate ext v (Pointer (Struct fs)))))))"
    by (simp add: Validate_def Let_def)
  then show ?thesis by (simp only: Validate_struct_errors)
qed

text \<open>
  Claim C8.  For every pointer to a record, the accumulator \<open>Validate\<close> ends with is,
  in this order: the failures of the built-in rules, field after field in the order
  of declaration and, within a field, token after token in the order of the
  annotation; then the failures of the custom functions, in the same order of fields
  and tokens.  Every failure of every token of every field is there, whatever failed
  before it, and this list is the aggregate returned (no error when it is empty).
\<close>

theorem C8_aggregate_order:
  "errors (snd (Validate ext v (Pointer (Struct fs))))
     = concat (map (builtin_failures ext) fs)
       @ concat (map (custom_failures (customValidators v)) fs)
   \<and> fst (Validate ext v (Pointer (Struct fs)))
     = (if concat (map (builtin_failures ext) fs)
           @ concat (map (custom_failures (customValidators v)) fs) = [] then None
        else Some (ValidationErrors
               (concat (map (builtin_failures ext) fs)
                @ concat (map (custom_failures (customValidators v)) fs))))"
  using Validate_struct_errors [of ext v fs] Validate_struct_result [of ext v fs]
  by (simp only: all_failures_def simp_thms)

subsection \<open>The accumulator is scoped to the call\<close>

lemma Validate_registry:
  "customValidators (snd (Validate ext v rVal)) = customValidators v"
proof (cases rVal)
  case (Pointer structVal)
  show ?thesis
  proof (cases structVal)
    case (Struct fs)
    let ?v0 = "v\<lparr>errors := []\<rparr>"
    let ?v1 = "validateFields ext ?v0 fs"
    have "snd (Validate ext v (Pointer (Struct fs))) = applyCustomValidators ?v1 fs"
      by (simp add: Validate_def Let_def)
    moreover have "customValidators (applyCustomValidators ?v1 fs) = customValidators ?v1"
      by (simp add: applyCustomValidators_calls)
    moreover have "customValidators ?v1 = customValidators v"
      using validateFields_frame [of ext ?v0 fs] by simp
    ultimately show ?thesis using Pointer Struct by simp
  qed (simp_all add: Validate_def Pointer)
qed (simp_all add: Validate_def)

lemma Validate_result_registry:
  "customValidators v = customValidators v' \<Longrightarrow>
   fst (Validate ext v rVal) = fst (Validate ext v' rVal)"
proof (cases rVal)
  case (Pointer structVal)
  assume r: "customValidators v = customValidators v'"
  show ?thesis
  proof (cases structVal)
    case (Struct fs)
    with Pointer r show ?thesis by (simp add: Validate_struct_result)
  qed (simp_all add: Validate_def Pointer)
qed (simp_all add: Validate_def)

lemma Validate_calls_results:
  "fst (Validate_calls ext v ss)
     = map (\<lambda>s. fst (Validate ext (New\<lparr>customValidators := customValidators v\<rparr>) s)) ss"
proof (induction ss arbitrary: v)
  case Nil
  show ?case by simp
next
  case (Cons s ss)
  let ?v' = "snd (Validate ext v s)"
  have c: "customValidators ?v' = customValidators v" by (rule Validate_registry)
  have h: "fst (Validate ext v s)
             = fst (Validate ext (New\<lparr>customValidators := customValidators v\<rparr>) s)"
    by (rule Validate_result_registry) simp
  have "fst (Validate_calls ext v (s # ss))
          = fst (Validate ext v s) # fst (Validate_calls ext ?v' ss)"
    by (simp add: case_prod_unfold Let_def)
  with Cons.IH [of ?v'] c h show ?case by simp
qed

text \<open>
  Claim C9.  Whatever calls of \<open>Validate\<close> a validator has served, the result of a call
  is the result a validator fresh from \<open>New\<close> with the same registered custom
  functions gives for the same input: nothing accumulated by an earlier call shows in
  a later result, and two successive calls with the same input return equal results.
  The registered functions are not changed by a call.
\<close>

theorem C9_accumulator_call_scoped:
  "fst (Validate_calls ext v ss)
     = map (\<lambda>s. fst (Validate ext (New\<lparr>customValidators := customValidators v\<rparr>) s)) ss
   \<and> fst (Validate ext v s)
       = fst (Validate ext (New\<lparr>customValidators := customValidators v\<rparr>) s)
   \<and> fst (Validate_calls ext v [s, s]) = [fst (Validate ext v s), fst (Validate ext v s)]
   \<and> customValidators (snd (Validate ext v s)) = customValidators v"
proof -
  have a: "fst (Validate ext v s)
       = fst (Validate ext (New\<lparr>customValidators := customValidators v\<rparr>) s)"
    by (rule Validate_result_registry) simp
  have "fst (Validate_calls ext v [s, s])
          = [fst (Validate ext (New\<lparr>customValidators := customValidators v\<rparr>) s),
             fst (Validate ext (New\<lparr>customValidators := customValidators v\<rparr>) s)]"
    by (simp only: Validate_calls_results list.map)
  with a have b: "fst (Validate_calls ext v [s, s])
      = [fst (Validate ext v s), fst (Validate ext v s)]" by simp
  from a b Validate_calls_results [of ext v ss] Validate_registry [of ext v s]
  show ?thesis by blast
qed

end
